theory Spec2Isabelle
  imports Main
begin

section \<open>Python strings\<close>

text \<open>
  A Python \<open>str\<close> is a sequence of code points and \<open>len\<close> counts code points. It is
  modelled as \<open>string\<close> with one \<open>char\<close> per code point, which covers the code points
  below 256. \<open>str.strip()\<close> removes leading and trailing white space; the code points
  below 256 that Python treats as white space are listed in \<open>isspace\<close>.
\<close>

definition isspace :: "char \<Rightarrow> bool" where
  "isspace c = (of_char c \<in> set [9, 10, 11, 12, 13, 28, 29, 30, 31, 32, 133, 160 :: nat])"

definition strip :: "string \<Rightarrow> string" where
  "strip s = rev (dropWhile isspace (rev (dropWhile isspace s)))"

definition lower_char :: "char \<Rightarrow> char" where
  "lower_char c =
     (let n = (of_char c :: nat)
      in if (65 \<le> n \<and> n \<le> 90) \<or> (192 \<le> n \<and> n \<le> 222 \<and> n \<noteq> 215)
         then char_of (n + 32) else c)"

definition lower :: "string \<Rightarrow> string" where
  "lower s = map lower_char s"

fun startswith :: "string \<Rightarrow> string \<Rightarrow> bool" where
  "startswith s [] = True"
| "startswith [] (p # ps) = False"
| "startswith (c # s) (p # ps) = (c = p \<and> startswith s ps)"

text \<open>\<open>contains s sub\<close> is Python's \<open>sub in s\<close>.\<close>

fun contains :: "string \<Rightarrow> string \<Rightarrow> bool" where
  "contains [] sub = (sub = [])"
| "contains (c # s) sub = (startswith (c # s) sub \<or> contains s sub)"

section \<open>The page driver\<close>

text \<open>
  Every call into the browser page can raise. A call's outcome is \<open>Inl DriverError\<close>
  when it raises and \<open>Inr v\<close> when it returns \<open>v\<close>; \<open>query_selector\<close> returns
  \<open>None\<close> when no element matches.
\<close>

datatype error = DriverError

type_synonym 'a result = "error + 'a"

record element =
  get_attribute_href :: "string option result"
  inner_text :: "string result"
  click :: "unit result"

text \<open>
  The extraction passes query a fixed family of selectors at each position \<open>i\<close>
  (\<open>div:nth-child(i)\<close>), each at most once per pass. A \<open>slot\<close> holds the outcome of each
  of these queries at one position: \<open>link1\<close> for \<open>selector1\<close>, \<open>link2\<close> for
  \<open>selector2\<close>, \<open>more_button\<close> for \<open>more_selector\<close>, and so on with the source's
  variable names.
\<close>

record slot =
  link1 :: "element option result"
  link2 :: "element option result"
  more_button :: "element option result"
  views_element :: "element option result"
  likes_element :: "element option result"
  follow_element :: "element option result"
  follow_count_element :: "element option result"
  follow_element2 :: "element option result"
  follow_count_element2 :: "element option result"

record page =
  query_slot :: "nat \<Rightarrow> slot"
  query_selector_all :: "string \<Rightarrow> element list result"

text \<open>A record of the result list is a Python dict with string keys and values.\<close>

type_synonym post = "(string \<times> string) list"

section \<open>The counting pass\<close>

text \<open>\<open>range(1, 100)\<close>.\<close>

definition slot_range :: "nat list" where
  "slot_range = [1..<100]"

text \<open>\<open>link1 if link1 else link2\<close>: an element handle is truthy, \<open>None\<close> is not.\<close>

definition choose_link :: "element option \<Rightarrow> element option \<Rightarrow> element option" where
  "choose_link l1 l2 = (if l1 \<noteq> None then l1 else l2)"

definition significant :: "string \<Rightarrow> bool" where
  "significant title = (title \<noteq> [] \<and> length title > 10)"

text \<open>
  One position of \<open>extract_posts_for_count\<close>. The two queries are outside the inner
  \<open>try\<close>, so their failure leaves the loop; a failure of \<open>inner_text\<close> is caught and
  the loop continues.
\<close>

definition count_slot :: "slot \<Rightarrow> post option result" where
  "count_slot s =
     (case link1 s of
        Inl e \<Rightarrow> Inl e
      | Inr l1 \<Rightarrow>
          (case link2 s of
             Inl e \<Rightarrow> Inl e
           | Inr l2 \<Rightarrow>
               (case choose_link l1 l2 of
                  None \<Rightarrow> Inr None
                | Some link \<Rightarrow>
                    (case inner_text link of
                       Inl e \<Rightarrow> Inr None
                     | Inr t \<Rightarrow>
                         if significant (strip t)
                         then Inr (Some [(''title'', strip t), (''url'', []), (''content'', [])])
                         else Inr None))))"

fun count_loop :: "page \<Rightarrow> nat list \<Rightarrow> post list \<Rightarrow> post list result" where
  "count_loop p [] posts = Inr posts"
| "count_loop p (i # is) posts =
     (case count_slot (query_slot p i) of
        Inl e \<Rightarrow> Inl e
      | Inr None \<Rightarrow> count_loop p is posts
      | Inr (Some r) \<Rightarrow> count_loop p is (posts @ [r]))"

text \<open>The outer \<open>except Exception\<close> returns the empty list.\<close>

definition extract_posts_for_count :: "page \<Rightarrow> post list result" where
  "extract_posts_for_count p =
     (case count_loop p slot_range [] of Inl e \<Rightarrow> Inr [] | Inr posts \<Rightarrow> Inr posts)"

section \<open>The full extraction pass\<close>

text \<open>\<open>if not v: v = "0"\<close>.\<close>

definition or_zero :: "string \<Rightarrow> string" where
  "or_zero v = (if v = [] then ''0'' else v)"

definition fill_defaults :: "string \<times> string \<Rightarrow> string \<times> string" where
  "fill_defaults vs = (or_zero (fst vs), or_zero (snd vs))"

text \<open>
  \<open>if href and href.startswith("/")\<close>, \<open>elif href\<close>, \<open>else\<close>; \<open>get_attribute\<close>
  returns \<open>None\<close> for a missing attribute.
\<close>

definition full_url :: "string option \<Rightarrow> string" where
  "full_url href =
     (case href of
        None \<Rightarrow> []
      | Some h \<Rightarrow>
          if h \<noteq> [] \<and> startswith h ''/'' then ''https://www.quora.com'' @ h
          else if h \<noteq> [] then h
          else [])"

text \<open>
  \<open>el = query_selector(..)\<close> followed by \<open>if el: v = el.inner_text().strip()\<close>, with
  \<open>cur\<close> the value of \<open>v\<close> before; and the same with \<open>else: v = "0"\<close>.
\<close>

definition read_text :: "element option result \<Rightarrow> string \<Rightarrow> string result" where
  "read_text q cur =
     (case q of
        Inl e \<Rightarrow> Inl e
      | Inr None \<Rightarrow> Inr cur
      | Inr (Some el) \<Rightarrow>
          (case inner_text el of Inl e \<Rightarrow> Inl e | Inr t \<Rightarrow> Inr (strip t)))"

definition read_text_or_zero :: "element option result \<Rightarrow> string result" where
  "read_text_or_zero q =
     (case q of
        Inl e \<Rightarrow> Inl e
      | Inr None \<Rightarrow> Inr ''0''
      | Inr (Some el) \<Rightarrow>
          (case inner_text el of Inl e \<Rightarrow> Inl e | Inr t \<Rightarrow> Inr (strip t)))"

text \<open>
  The \<open>try\<close> block entered when \<open>link2\<close> is found, giving \<open>(views, likes)\<close>. Both start
  empty; the \<open>except\<close> branch fills the ones still empty with \<open>"0"\<close>.
\<close>

definition views_likes :: "slot \<Rightarrow> string \<times> string" where
  "views_likes s =
     (case more_button s of
        Inl e \<Rightarrow> fill_defaults ([], [])
      | Inr None \<Rightarrow> ([], [])
      | Inr (Some b) \<Rightarrow>
          (case click b of
             Inl e \<Rightarrow> fill_defaults ([], [])
           | Inr u \<Rightarrow>
               (case read_text_or_zero (views_element s) of
                  Inl e \<Rightarrow> fill_defaults ([], [])
                | Inr views \<Rightarrow>
                    (case read_text_or_zero (likes_element s) of
                       Inl e \<Rightarrow> fill_defaults (views, [])
                     | Inr likes \<Rightarrow> (views, likes)))))"

text \<open>
  The \<open>try\<close> block entered when \<open>link1\<close> is found, giving
  \<open>(follow_text, follow_count)\<close>. The second pair of selectors is tried for a value
  that is still empty; both the normal end of the block and the \<open>except\<close> branch
  fill what is empty with \<open>"0"\<close>.
\<close>

definition follow_fields :: "slot \<Rightarrow> string \<times> string" where
  "follow_fields s =
     (case read_text (follow_element s) [] of
        Inl e \<Rightarrow> fill_defaults ([], [])
      | Inr ft \<Rightarrow>
          (case read_text (follow_count_element s) [] of
             Inl e \<Rightarrow> fill_defaults (ft, [])
           | Inr fc \<Rightarrow>
               (case (if ft = [] then read_text (follow_element2 s) ft else Inr ft) of
                  Inl e \<Rightarrow> fill_defaults (ft, fc)
                | Inr ft' \<Rightarrow>
                    (case (if fc = [] then read_text (follow_count_element2 s) fc else Inr fc) of
                       Inl e \<Rightarrow> fill_defaults (ft', fc)
                     | Inr fc' \<Rightarrow> fill_defaults (ft', fc')))))"

text \<open>
  One position of the primary pass: \<open>Inl\<close> when an exception leaves the loop (the two
  link queries are outside every inner \<open>try\<close>), \<open>Inr None\<close> when nothing is appended,
  \<open>Inr (Some r)\<close> when the record \<open>r\<close> is appended.
\<close>

definition extract_slot :: "slot \<Rightarrow> post option result" where
  "extract_slot s =
     (case link1 s of
        Inl e \<Rightarrow> Inl e
      | Inr l1 \<Rightarrow>
          (case link2 s of
             Inl e \<Rightarrow> Inl e
           | Inr l2 \<Rightarrow>
               (let vl = (if l2 \<noteq> None then views_likes s else ([], []))
                in case choose_link l1 l2 of
                     None \<Rightarrow> Inr None
                   | Some link \<Rightarrow>
                       (case get_attribute_href link of
                          Inl e \<Rightarrow> Inr None
                        | Inr href \<Rightarrow>
                            (case inner_text link of
                               Inl e \<Rightarrow> Inr None
                             | Inr t \<Rightarrow>
                                 if significant (strip t)
                                 then let ff = (if l1 \<noteq> None then follow_fields s
                                                else ([], []))
                                      in Inr (Some [(''title'', strip t),
                                                    (''url'', full_url href),
                                                    (''follow_text'', fst ff),
                                                    (''follow_count'', snd ff),
                                                    (''views'', fst vl),
                                                    (''likes'', snd vl),
                                                    (''content'', [])])
                                 else Inr None)))))"

fun primary_loop :: "page \<Rightarrow> int \<Rightarrow> nat list \<Rightarrow> post list \<Rightarrow> post list result" where
  "primary_loop p target_posts [] posts = Inr posts"
| "primary_loop p target_posts (i # is) posts =
     (case extract_slot (query_slot p i) of
        Inl e \<Rightarrow> Inl e
      | Inr None \<Rightarrow> primary_loop p target_posts is posts
      | Inr (Some r) \<Rightarrow>
          if int (length (posts @ [r])) \<ge> target_posts then Inr (posts @ [r])
          else primary_loop p target_posts is (posts @ [r]))"

definition fallback_selectors :: "string list" where
  "fallback_selectors =
     [''a[href*='' @ [CHR 0x27] @ ''/answer/'' @ [CHR 0x27] @ '']'',
      ''a[href*='' @ [CHR 0x27] @ ''/question/'' @ [CHR 0x27] @ '']'',
      ''a[href*='' @ [CHR 0x27] @ ''/topic/'' @ [CHR 0x27] @ '']'',
      ''div[class*='' @ [CHR 0x27] @ ''answer'' @ [CHR 0x27] @ ''] a'',
      ''div[class*='' @ [CHR 0x27] @ ''question'' @ [CHR 0x27] @ ''] a'',
      ''div[class*='' @ [CHR 0x27] @ ''feed'' @ [CHR 0x27] @ ''] a'',
      ''div[class*='' @ [CHR 0x27] @ ''result'' @ [CHR 0x27] @ ''] a'',
      ''div[class*='' @ [CHR 0x27] @ ''item'' @ [CHR 0x27] @ ''] a'',
      ''div[class*='' @ [CHR 0x27] @ ''content'' @ [CHR 0x27] @ ''] a'',
      ''div[class*='' @ [CHR 0x27] @ ''post'' @ [CHR 0x27] @ ''] a'',
      ''div[class*='' @ [CHR 0x27] @ ''search'' @ [CHR 0x27] @ ''] a'',
      ''div[class*='' @ [CHR 0x27] @ ''list'' @ [CHR 0x27] @ ''] a'',
      ''div[class*='' @ [CHR 0x27] @ ''card'' @ [CHR 0x27] @ ''] a'',
      ''div[class*='' @ [CHR 0x27] @ ''tile'' @ [CHR 0x27] @ ''] a'']"

text \<open>The inner loop of the fallback pass, over the links one selector matched.\<close>

fun fallback_links :: "int \<Rightarrow> element list \<Rightarrow> post list \<Rightarrow> post list" where
  "fallback_links target_posts [] posts = posts"
| "fallback_links target_posts (link # links) posts =
     (if int (length posts) \<ge> target_posts then posts
      else case get_attribute_href link of
             Inl e \<Rightarrow> fallback_links target_posts links posts
           | Inr href \<Rightarrow>
               (case inner_text link of
                  Inl e \<Rightarrow> fallback_links target_posts links posts
                | Inr t \<Rightarrow>
                    if significant (strip t)
                    then fallback_links target_posts links
                           (posts @ [[(''title'', strip t), (''url'', full_url href),
                                      (''content'', [])]])
                    else fallback_links target_posts links posts))"

fun fallback_loop :: "page \<Rightarrow> int \<Rightarrow> string list \<Rightarrow> post list \<Rightarrow> post list" where
  "fallback_loop p target_posts [] posts = posts"
| "fallback_loop p target_posts (selector # selectors) posts =
     (if int (length posts) \<ge> target_posts then posts
      else case query_selector_all p selector of
             Inl e \<Rightarrow> fallback_loop p target_posts selectors posts
           | Inr links \<Rightarrow>
               fallback_loop p target_posts selectors (fallback_links target_posts links posts))"

text \<open>
  The body of \<open>extract_posts\<close>. \<open>target_attr\<close> is the attribute \<open>self.target_posts\<close>,
  \<open>None\<close> when it was never set (\<open>getattr(self, 'target_posts', 10)\<close>).
\<close>

definition extract_posts_body :: "page \<Rightarrow> int option \<Rightarrow> post list result" where
  "extract_posts_body p target_attr =
     (let target_posts = (case target_attr of None \<Rightarrow> 10 | Some t \<Rightarrow> t)
      in case primary_loop p target_posts slot_range [] of
           Inl e \<Rightarrow> Inl e
         | Inr posts \<Rightarrow>
             if int (length posts) < target_posts
             then Inr (fallback_loop p target_posts fallback_selectors posts)
             else Inr posts)"

text \<open>The outer \<open>except Exception\<close> returns the empty list.\<close>

definition extract_posts :: "page \<Rightarrow> int option \<Rightarrow> post list result" where
  "extract_posts p target_attr =
     (case extract_posts_body p target_attr of Inl e \<Rightarrow> Inr [] | Inr posts \<Rightarrow> Inr posts)"

section \<open>Searching: the scroll loop and the final extraction\<close>

text \<open>
  \<open>urllib.parse.quote(keyword, safe='')\<close>: letters, digits and \<open>_.-~\<close> are kept, every
  other code point is encoded in UTF-8 and each byte written as \<open>%XX\<close>.
\<close>

definition unreserved :: "char \<Rightarrow> bool" where
  "unreserved c =
     (c \<in> set ''ABCDEFGHIJKLMNOPQRSTUVWXYZabcdefghijklmnopqrstuvwxyz0123456789_.-~'')"

definition utf8 :: "char \<Rightarrow> nat list" where
  "utf8 c = (let n = (of_char c :: nat)
             in if n < 128 then [n] else [192 + n div 64, 128 + n mod 64])"

definition percent :: "nat \<Rightarrow> string" where
  "percent b = [CHR ''%'', ''0123456789ABCDEF'' ! (b div 16), ''0123456789ABCDEF'' ! (b mod 16)]"

definition quote :: "string \<Rightarrow> string" where
  "quote s = concat (map (\<lambda>c. if unreserved c then [c] else concat (map percent (utf8 c))) s)"

text \<open>
  What the browser does during one search. The page changes while it is scrolled, so
  the counting pass after the \<open>k\<close>-th scroll and the final extraction each see a page of
  their own.
\<close>

record session =
  goto :: "string \<Rightarrow> unit result"
  content :: "string result"
  evaluate :: "nat \<Rightarrow> unit result"
  page_after_scroll :: "nat \<Rightarrow> page"
  page_at_extraction :: "nat \<Rightarrow> page"

text \<open>
  The calls \<open>search_keyword\<close> makes that can change its course, in the order it makes
  them. (\<open>wait_for_timeout\<close>, \<open>title\<close> and the second \<open>content\<close> are wrapped in a
  \<open>try\<close> that ignores their failure, and are left out.)
\<close>

datatype action =
    Goto string
  | Content
  | Evaluate nat
  | ExtractPostsForCount nat
  | ExtractPosts

record loop_state =
  scroll_count :: nat
  previous_count :: nat
  no_new_posts_count :: nat

datatype exit = TargetReached | Stagnated | BudgetSpent

definition max_scrolls :: nat where
  "max_scrolls = 50"

definition initial_state :: loop_state where
  "initial_state = \<lparr>scroll_count = 0, previous_count = 0, no_new_posts_count = 0\<rparr>"

text \<open>
  The \<open>while scroll_count < max_scrolls\<close> loop. It returns the calls made so far and
  either the exception that left it or the way it ended with the values of its variables.
\<close>

function scroll_loop ::
  "session \<Rightarrow> int \<Rightarrow> loop_state \<Rightarrow> action list \<Rightarrow> action list \<times> (exit \<times> loop_state) result"
where
  "scroll_loop w target_posts st calls =
     (if scroll_count st < max_scrolls
      then
        (let k = scroll_count st + 1
         in case evaluate w k of
              Inl e \<Rightarrow> (calls @ [Evaluate k], Inl e)
            | Inr u \<Rightarrow>
                (case extract_posts_for_count (page_after_scroll w k) of
                   Inl e \<Rightarrow> (calls @ [Evaluate k, ExtractPostsForCount k], Inl e)
                 | Inr current_posts \<Rightarrow>
                     (let current_count = length current_posts;
                          calls' = calls @ [Evaluate k, ExtractPostsForCount k]
                      in if int current_count \<ge> target_posts
                         then (calls', Inr (TargetReached, st\<lparr>scroll_count := k\<rparr>))
                         else
                           (let n = (if current_count > previous_count st then 0
                                     else no_new_posts_count st + 1)
                            in if n \<ge> 5
                               then (calls', Inr (Stagnated,
                                       st\<lparr>scroll_count := k, no_new_posts_count := n\<rparr>))
                               else scroll_loop w target_posts
                                      \<lparr>scroll_count = k, previous_count = current_count,
                                       no_new_posts_count = n\<rparr> calls'))))
      else (calls, Inr (BudgetSpent, st)))"
  by pat_completeness auto
termination
  by (relation "measure (\<lambda>(w, target_posts, st, calls). max_scrolls - scroll_count st)") auto

definition no_results :: "string \<Rightarrow> bool" where
  "no_results page_content =
     (contains (lower page_content) ''no results'' \<or> contains (lower page_content) ''no answers'')"

text \<open>
  \<open>search_keyword\<close> returns the calls it made and its list. Every exception inside it
  ends in its \<open>except Exception: return []\<close>.
\<close>

definition search_keyword :: "session \<Rightarrow> string \<Rightarrow> int \<Rightarrow> action list \<times> post list" where
  "search_keyword w keyword target_posts =
     (let search_url = ''https://www.quora.com/search?q='' @ quote keyword
      in case goto w search_url of
           Inl e \<Rightarrow> ([Goto search_url], [])
         | Inr u \<Rightarrow>
             (case content w of
                Inl e \<Rightarrow> ([Goto search_url, Content], [])
              | Inr page_content \<Rightarrow>
                  if no_results page_content then ([Goto search_url, Content], [])
                  else
                    (case scroll_loop w target_posts initial_state [Goto search_url, Content] of
                       (calls, Inl e) \<Rightarrow> (calls, [])
                     | (calls, Inr (ex, st)) \<Rightarrow>
                         (case extract_posts (page_at_extraction w (scroll_count st))
                                 (Some target_posts) of
                            Inl e \<Rightarrow> (calls @ [ExtractPosts], [])
                          | Inr posts \<Rightarrow> (calls @ [ExtractPosts], posts)))))"

text \<open>\<open>xs[:n]\<close>; a negative \<open>n\<close> counts from the end.\<close>

definition slice_to :: "int \<Rightarrow> 'a list \<Rightarrow> 'a list" where
  "slice_to n xs = (if n \<ge> 0 then take (nat n) xs else take (nat (int (length xs) + n)) xs)"

definition scrape_posts :: "session \<Rightarrow> string \<Rightarrow> int \<Rightarrow> action list \<times> post list" where
  "scrape_posts w keyword max_posts =
     (case search_keyword w keyword max_posts of
        (calls, posts) \<Rightarrow> if posts = [] then (calls, []) else (calls, slice_to max_posts posts))"

section \<open>Example pages\<close>

definition absent_slot :: slot where
  "absent_slot =
     \<lparr>link1 = Inr None, link2 = Inr None, more_button = Inr None,
      views_element = Inr None, likes_element = Inr None, follow_element = Inr None,
      follow_count_element = Inr None, follow_element2 = Inr None,
      follow_count_element2 = Inr None\<rparr>"

definition anchor :: "string \<Rightarrow> string \<Rightarrow> element" where
  "anchor h t = \<lparr>get_attribute_href = Inr (Some h), inner_text = Inr t, click = Inr ()\<rparr>"

definition page_of :: "(nat \<Rightarrow> slot) \<Rightarrow> page" where
  "page_of f = \<lparr>query_slot = f, query_selector_all = (\<lambda>selector. Inr [])\<rparr>"

definition question_slot :: slot where
  "question_slot =
     absent_slot\<lparr>link1 := Inr (Some (anchor ''/question/Example'' ''What is an example?''))\<rparr>"

definition question_post :: post where
  "question_post =
     [(''title'', ''What is an example?''),
      (''url'', ''https://www.quora.com/question/Example''),
      (''follow_text'', ''0''), (''follow_count'', ''0''),
      (''views'', []), (''likes'', []), (''content'', [])]"

definition first_slot_page :: page where
  "first_slot_page = page_of (\<lambda>i. if i = 1 then question_slot else absent_slot)"

definition steady_session :: "page \<Rightarrow> session" where
  "steady_session pg =
     \<lparr>goto = (\<lambda>url. Inr ()), content = Inr ''<html></html>'', evaluate = (\<lambda>k. Inr ()),
      page_after_scroll = (\<lambda>k. pg), page_at_extraction = (\<lambda>k. pg)\<rparr>"

text \<open>
  The number of posts the scroll loop measures after its \<open>k\<close>-th scroll, and pages and
  sessions with a given number of questions.
\<close>

definition current_count :: "session \<Rightarrow> nat \<Rightarrow> nat" where
  "current_count w k =
     (case extract_posts_for_count (page_after_scroll w k) of
        Inl e \<Rightarrow> 0
      | Inr current_posts \<Rightarrow> length current_posts)"

definition questions_page :: "nat \<Rightarrow> page" where
  "questions_page n = page_of (\<lambda>i. if i \<le> n then question_slot else absent_slot)"

definition count_post :: post where
  "count_post = [(''title'', ''What is an example?''), (''url'', []), (''content'', [])]"

definition growing_session :: session where
  "growing_session =
     \<lparr>goto = (\<lambda>url. Inr ()), content = Inr ''<html></html>'', evaluate = (\<lambda>k. Inr ()),
      page_after_scroll =
        (\<lambda>k. questions_page (if k = 1 then 2 else if k = 2 then 5 else if k = 3 then 9 else 12)),
      page_at_extraction = (\<lambda>k. questions_page 12)\<rparr>"

definition no_results_session :: session where
  "no_results_session =
     \<lparr>goto = (\<lambda>url. Inr ()), content = Inr ''<div>No results found</div>'',
      evaluate = (\<lambda>k. Inr ()), page_after_scroll = (\<lambda>k. questions_page 12),
      page_at_extraction = (\<lambda>k. questions_page 12)\<rparr>"

definition relative_link_slot :: slot where
  "relative_link_slot =
     absent_slot\<lparr>link2 := Inr (Some (anchor ''question/Example'' ''An answer to the example''))\<rparr>"

definition both_slot :: slot where
  "both_slot =
     absent_slot
       \<lparr>link1 := Inr (Some (anchor ''/question/Example'' ''What is an example?'')),
        link2 := Inr (Some (anchor ''/answer/Example'' ''An answer to the example'')),
        more_button := Inr (Some (anchor [] ''(more)'')),
        views_element := Inr (Some (anchor [] ''1.2K views'')),
        likes_element := Inr (Some (anchor [] ''35''))\<rparr>"

definition both_post :: post where
  "both_post =
     [(''title'', ''What is an example?''),
      (''url'', ''https://www.quora.com/question/Example''),
      (''follow_text'', ''0''), (''follow_count'', ''0''),
      (''views'', ''1.2K views''), (''likes'', ''35''), (''content'', [])]"

definition both_page :: page where
  "both_page = page_of (\<lambda>i. if i = 1 then both_slot else absent_slot)"



definition page_slot_100 :: page where
  "page_slot_100 = page_of (\<lambda>i. if i = 100 then question_slot else absent_slot)"

section \<open>Auxiliary facts\<close>

declare scroll_loop.simps [simp del]

lemma slot_range_Cons: "slot_range = 1 # [2..<100]"
  by (simp add: slot_range_def upt_conv_Cons)

lemma extract_slot_absent: "extract_slot absent_slot = Inr None"
  by (simp add: extract_slot_def absent_slot_def choose_link_def)

lemma count_slot_absent: "count_slot absent_slot = Inr None"
  by (simp add: count_slot_def absent_slot_def choose_link_def)

lemma strip_question: "strip ''What is an example?'' = ''What is an example?''"
  by (simp add: strip_def isspace_def)

lemma extract_slot_question: "extract_slot question_slot = Inr (Some question_post)"
  by (simp add: extract_slot_def question_slot_def absent_slot_def anchor_def choose_link_def
      strip_question significant_def full_url_def follow_fields_def read_text_def
      fill_defaults_def or_zero_def question_post_def)

lemma primary_loop_skip:
  "\<forall>i \<in> set is. extract_slot (query_slot p i) = Inr None \<Longrightarrow>
   primary_loop p t is posts = Inr posts"
  by (induction "is") simp_all

lemma count_loop_skip:
  "\<forall>i \<in> set is. count_slot (query_slot p i) = Inr None \<Longrightarrow>
   count_loop p is posts = Inr posts"
  by (induction "is") simp_all

lemma fallback_loop_none:
  "\<forall>sel \<in> set sels. query_selector_all p sel = Inr [] \<Longrightarrow>
   fallback_loop p t sels posts = posts"
  by (induction sels) simp_all

lemma extract_posts_first_slot_zero:
  "extract_posts first_slot_page (Some 0) = Inr [question_post]"
  by (simp add: extract_posts_def extract_posts_body_def slot_range_Cons first_slot_page_def
      page_of_def extract_slot_question)

lemma primary_loop_bound:
  "int (length posts) < t \<Longrightarrow> primary_loop p t is posts = Inr out \<Longrightarrow> int (length out) \<le> t"
proof (induction "is" arbitrary: posts)
  case Nil
  then show ?case by simp
next
  case (Cons i "is")
  show ?case
  proof (cases "extract_slot (query_slot p i)")
    case (Inl e)
    with Cons.prems show ?thesis by simp
  next
    case (Inr ro)
    show ?thesis
    proof (cases ro)
      case None
      with Inr Cons show ?thesis by simp
    next
      case (Some r)
      show ?thesis
      proof (cases "int (length (posts @ [r])) \<ge> t")
        case True
        with Inr Some Cons.prems show ?thesis by auto
      next
        case False
        with Inr Some Cons.prems have "primary_loop p t is (posts @ [r]) = Inr out" by simp
        moreover from False have "int (length (posts @ [r])) < t" by simp
        ultimately show ?thesis by (rule Cons.IH[rotated])
      qed
    qed
  qed
qed

lemma fallback_links_bound:
  "int (length posts) \<le> t \<Longrightarrow> int (length (fallback_links t links posts)) \<le> t"
proof (induction links arbitrary: posts)
  case Nil
  then show ?case by simp
next
  case (Cons link links)
  then show ?case
    by (auto split: sum.splits)
qed

lemma fallback_loop_bound:
  "int (length posts) \<le> t \<Longrightarrow> int (length (fallback_loop p t sels posts)) \<le> t"
proof (induction sels arbitrary: posts)
  case Nil
  then show ?case by simp
next
  case (Cons sel sels)
  then show ?case
    by (auto split: sum.splits simp: fallback_links_bound)
qed

lemma extract_posts_bound:
  assumes "0 < t" and "extract_posts p (Some t) = Inr out"
  shows "int (length out) \<le> t"
proof (cases "primary_loop p t slot_range []")
  case (Inl e)
  with assms show ?thesis by (simp add: extract_posts_def extract_posts_body_def)
next
  case (Inr posts)
  from assms(1) Inr have b: "int (length posts) \<le> t"
    by (intro primary_loop_bound[of "[]"]) auto
  show ?thesis
  proof (cases "int (length posts) < t")
    case True
    with Inr assms(2) have "out = fallback_loop p t fallback_selectors posts"
      by (simp add: extract_posts_def extract_posts_body_def)
    with b show ?thesis by (simp add: fallback_loop_bound)
  next
    case False
    with Inr assms(2) have "out = posts"
      by (simp add: extract_posts_def extract_posts_body_def)
    with b show ?thesis by simp
  qed
qed

lemma slice_to_length: "0 \<le> n \<Longrightarrow> int (length (slice_to n xs)) \<le> n"
  by (simp add: slice_to_def)

lemma extract_posts_for_count_returns: "\<exists>posts. extract_posts_for_count p = Inr posts"
  by (simp add: extract_posts_for_count_def split: sum.split)

lemma scroll_loop_step:
  assumes "scroll_count st < max_scrolls"
    and "evaluate w (Suc (scroll_count st)) = Inr u"
  shows "scroll_loop w t st calls =
     (let k = Suc (scroll_count st);
          c = current_count w k;
          calls' = calls @ [Evaluate k, ExtractPostsForCount k];
          n = (if c > previous_count st then 0 else no_new_posts_count st + 1)
      in if int c \<ge> t then (calls', Inr (TargetReached, st\<lparr>scroll_count := k\<rparr>))
         else if n \<ge> 5
         then (calls', Inr (Stagnated, st\<lparr>scroll_count := k, no_new_posts_count := n\<rparr>))
         else scroll_loop w t
                \<lparr>scroll_count = k, previous_count = c, no_new_posts_count = n\<rparr> calls')"
proof -
  obtain posts where "extract_posts_for_count (page_after_scroll w (Suc (scroll_count st))) = Inr posts"
    using extract_posts_for_count_returns by blast
  with assms show ?thesis
    by (subst scroll_loop.simps) (simp add: current_count_def Let_def)
qed

lemma scroll_loop_raise:
  assumes "scroll_count st < max_scrolls"
    and "evaluate w (Suc (scroll_count st)) = Inl e"
  shows "scroll_loop w t st calls = (calls @ [Evaluate (Suc (scroll_count st))], Inl e)"
  using assms by (subst scroll_loop.simps) simp

lemma scroll_loop_spent:
  "\<not> scroll_count st < max_scrolls \<Longrightarrow> scroll_loop w t st calls = (calls, Inr (BudgetSpent, st))"
  by (subst scroll_loop.simps) simp

lemma scroll_loop_exit:
  assumes "scroll_loop w t st0 calls = (calls', Inr (ex, st))"
    and "\<forall>j. 1 \<le> j \<and> j \<le> scroll_count st0 \<longrightarrow> int (current_count w j) < t"
  shows "(\<forall>j. 1 \<le> j \<and> j < scroll_count st \<longrightarrow> int (current_count w j) < t)
       \<and> (ex = TargetReached \<longrightarrow> 1 \<le> scroll_count st \<and> t \<le> int (current_count w (scroll_count st)))
       \<and> (ex = Stagnated \<longrightarrow> 1 \<le> scroll_count st \<and> int (current_count w (scroll_count st)) < t)
       \<and> (ex = BudgetSpent \<longrightarrow> max_scrolls \<le> scroll_count st
              \<and> (\<forall>j. 1 \<le> j \<and> j \<le> scroll_count st \<longrightarrow> int (current_count w j) < t))"
  using assms
proof (induction w t st0 calls rule: scroll_loop.induct)
  case (1 w t st0 calls)
  show ?case
  proof (cases "scroll_count st0 < max_scrolls")
    case False
    with "1.prems" show ?thesis by (auto simp: scroll_loop_spent)
  next
    case True
    show ?thesis
    proof (cases "evaluate w (Suc (scroll_count st0))")
      case (Inl e)
      with True "1.prems" show ?thesis by (simp add: scroll_loop_raise)
    next
      case (Inr u)
      define k where "k = Suc (scroll_count st0)"
      define c where "c = current_count w k"
      define n where "n = (if c > previous_count st0 then 0 else no_new_posts_count st0 + 1)"
      obtain posts where ps: "extract_posts_for_count (page_after_scroll w k) = Inr posts"
        using extract_posts_for_count_returns by blast
      then have c: "c = length posts" by (simp add: c_def current_count_def)
      note step = scroll_loop_step[OF True Inr, of t calls, unfolded Let_def, folded k_def, folded c_def, folded n_def]
      show ?thesis
      proof (cases "int c \<ge> t")
        case True
        with step "1.prems" show ?thesis by (auto simp: k_def c_def)
      next
        case below: False
        show ?thesis
        proof (cases "n \<ge> 5")
          case True
          with below step "1.prems" show ?thesis by (auto simp: k_def c_def)
        next
          case False
          from below False step "1.prems"(1)
          have run: "scroll_loop w t \<lparr>scroll_count = k, previous_count = c, no_new_posts_count = n\<rparr>
                  (calls @ [Evaluate k, ExtractPostsForCount k]) = (calls', Inr (ex, st))"
            by simp
          have inv: "\<forall>j. 1 \<le> j \<and> j \<le> scroll_count \<lparr>scroll_count = k, previous_count = c, no_new_posts_count = n\<rparr>
                 \<longrightarrow> int (current_count w j) < t"
          proof (intro allI impI)
            fix j assume "1 \<le> j \<and> j \<le> scroll_count \<lparr>scroll_count = k, previous_count = c, no_new_posts_count = n\<rparr>"
            then have "j \<le> scroll_count st0 \<or> j = k" and "1 \<le> j" by (auto simp: k_def)
            with "1.prems"(2) below show "int (current_count w j) < t" by (auto simp: c_def)
          qed
          have evk: "evaluate w (scroll_count st0 + 1) = Inr u" using Inr by simp
          have psk: "extract_posts_for_count (page_after_scroll w (scroll_count st0 + 1)) = Inr posts"
            using ps by (simp add: k_def)
          have b1: "\<not> t \<le> int (length posts)" using below c by simp
          have b2: "\<not> 5 \<le> (if previous_count st0 < length posts then 0 else no_new_posts_count st0 + 1)"
            using False c by (simp add: n_def)
          have eq: "\<lparr>scroll_count = scroll_count st0 + 1, previous_count = length posts,
               no_new_posts_count = (if previous_count st0 < length posts then 0 else no_new_posts_count st0 + 1)\<rparr>
               = \<lparr>scroll_count = k, previous_count = c, no_new_posts_count = n\<rparr>"
            by (simp add: k_def c n_def)
          show ?thesis
            using "1.IH"[OF True refl evk psk refl refl b1 refl b2] run inv
            unfolding eq by (simp add: k_def)
        qed
      qed
    qed
  qed
qed

lemma count_slot_question: "count_slot question_slot = Inr (Some count_post)"
  by (simp add: count_slot_def question_slot_def absent_slot_def anchor_def choose_link_def
      strip_question significant_def count_post_def)

lemma count_loop_questions:
  "count_loop (questions_page n) is posts =
     Inr (posts @ map (\<lambda>i. count_post) (filter (\<lambda>i. i \<le> n) is))"
  by (induction "is" arbitrary: posts)
     (simp_all add: questions_page_def page_of_def count_slot_question count_slot_absent)

lemma length_filter_le_upt: "length (filter (\<lambda>i. i \<le> n) [Suc 0..<b]) = min n (b - 1)"
  by (induction b) auto

lemma current_count_questions:
  "n < 100 \<Longrightarrow> current_count w k = n" if "page_after_scroll w k = questions_page n"
  using that
  by (simp add: current_count_def extract_posts_for_count_def count_loop_questions slot_range_def
      length_filter_le_upt)

lemma upt_1_7: "[1..<7] = [1, 2, 3, 4, 5, 6::nat]"
  by (simp add: upt_conv_Cons)

lemma upt_1_5: "[1..<5] = [1, 2, 3, 4::nat]"
  by (simp add: upt_conv_Cons)

lemma scroll_loop_continue:
  assumes "k' = Suc k" and "k < max_scrolls"
    and "evaluate w k' = Inr ()"
    and "current_count w k' = c" and "int c < t"
    and "n' = (if c > pc then 0 else n + 1)" and "n' < 5"
  shows "scroll_loop w t \<lparr>scroll_count = k, previous_count = pc, no_new_posts_count = n\<rparr> calls
       = scroll_loop w t \<lparr>scroll_count = k', previous_count = c, no_new_posts_count = n'\<rparr>
           (calls @ [Evaluate k', ExtractPostsForCount k'])"
  using assms
  by (subst scroll_loop_step[where u="()"]) (auto simp: Let_def split: if_splits)

lemma scroll_loop_stagnated:
  assumes "k' = Suc k" and "k < max_scrolls"
    and "evaluate w k' = Inr ()"
    and "int (current_count w k') < t"
    and "\<not> current_count w k' > pc" and "n' = n + 1" and "n' \<ge> 5"
  shows "scroll_loop w t \<lparr>scroll_count = k, previous_count = pc, no_new_posts_count = n\<rparr> calls
       = (calls @ [Evaluate k', ExtractPostsForCount k'],
          Inr (Stagnated, \<lparr>scroll_count = k', previous_count = pc, no_new_posts_count = n'\<rparr>))"
  using assms
  by (subst scroll_loop_step[where u="()"]) (simp_all add: Let_def)

lemma scroll_loop_reached:
  assumes "k' = Suc k" and "k < max_scrolls"
    and "evaluate w k' = Inr ()"
    and "t \<le> int (current_count w k')"
  shows "scroll_loop w t \<lparr>scroll_count = k, previous_count = pc, no_new_posts_count = n\<rparr> calls
       = (calls @ [Evaluate k', ExtractPostsForCount k'],
          Inr (TargetReached, \<lparr>scroll_count = k', previous_count = pc, no_new_posts_count = n\<rparr>))"
  using assms
  by (subst scroll_loop_step[where u="()"]) (simp_all add: Let_def)

lemma current_count_steady:
  "n < 100 \<Longrightarrow> current_count (steady_session (questions_page n)) k = n"
  by (rule current_count_questions) (simp_all add: steady_session_def)

lemma current_count_growing:
  "current_count growing_session (Suc 0) = 2" "current_count growing_session 2 = 5"
  "current_count growing_session 3 = 9" "current_count growing_session 4 = 12"
  by (rule current_count_questions; simp add: growing_session_def)+

lemma quote_amazon_acos: "quote ''amazon acos'' = ''amazon%20acos''"
  by (simp add: quote_def unreserved_def utf8_def percent_def)

lemma no_results_found: "no_results ''<div>No results found</div>''"
  by (simp add: no_results_def lower_def lower_char_def Let_def char_of_eq_iff)

lemma strip_answer: "strip ''An answer to the example'' = ''An answer to the example''"
  by (simp add: strip_def isspace_def)

lemma strip_views: "strip ''1.2K views'' = ''1.2K views''"
  by (simp add: strip_def isspace_def)

lemma strip_35: "strip ''35'' = ''35''"
  by (simp add: strip_def isspace_def)

lemma extract_slot_relative:
  "extract_slot relative_link_slot =
     Inr (Some [(''title'', ''An answer to the example''), (''url'', ''question/Example''),
                (''follow_text'', []), (''follow_count'', []), (''views'', []), (''likes'', []),
                (''content'', [])])"
  by (simp add: extract_slot_def relative_link_slot_def absent_slot_def anchor_def choose_link_def
      strip_answer significant_def full_url_def views_likes_def)

lemma extract_slot_both: "extract_slot both_slot = Inr (Some both_post)"
  by (simp add: extract_slot_def both_slot_def absent_slot_def anchor_def choose_link_def
      strip_question strip_views strip_35 significant_def full_url_def views_likes_def
      follow_fields_def read_text_def read_text_or_zero_def fill_defaults_def or_zero_def
      both_post_def)





lemma extract_posts_both_page:
  "extract_posts both_page (Some 1) = Inr [both_post]"
  by (simp add: extract_posts_def extract_posts_body_def slot_range_Cons both_page_def
      page_of_def extract_slot_both)

lemma extract_posts_for_count_slot_100: "extract_posts_for_count page_slot_100 = Inr []"
  by (simp add: extract_posts_for_count_def page_slot_100_def page_of_def slot_range_def
      count_loop_skip count_slot_absent)

lemma extract_posts_slot_100: "extract_posts page_slot_100 (Some 10) = Inr []"
  by (simp add: extract_posts_def extract_posts_body_def page_slot_100_def page_of_def
      slot_range_def primary_loop_skip extract_slot_absent fallback_loop_none)

lemma slot_100_holds_question:
  "extract_slot (query_slot page_slot_100 100) = Inr (Some question_post)
   \<and> count_slot (query_slot page_slot_100 100) = Inr (Some count_post)"
  by (simp add: page_slot_100_def page_of_def extract_slot_question count_slot_question)

lemma full_url_cases:
  "full_url x =
     (case x of None \<Rightarrow> []
      | Some h \<Rightarrow> if startswith h ''/'' then ''https://www.quora.com'' @ h else h)"
  by (cases x) (auto simp: full_url_def)

lemma extract_slot_emits:
  assumes "link1 s = Inr l1" and "link2 s = Inr l2" and "choose_link l1 l2 = Some link"
    and "extract_slot s = Inr (Some r)"
  shows "\<exists>href t. get_attribute_href link = Inr href \<and> inner_text link = Inr t
           \<and> significant (strip t)
           \<and> r = [(''title'', strip t), (''url'', full_url href),
                  (''follow_text'', fst (if l1 \<noteq> None then follow_fields s else ([], []))),
                  (''follow_count'', snd (if l1 \<noteq> None then follow_fields s else ([], []))),
                  (''views'', fst (if l2 \<noteq> None then views_likes s else ([], []))),
                  (''likes'', snd (if l2 \<noteq> None then views_likes s else ([], []))),
                  (''content'', [])]"
proof (cases "get_attribute_href link")
  case (Inl e)
  with assms show ?thesis by (simp add: extract_slot_def Let_def)
next
  case href: (Inr href)
  show ?thesis
  proof (cases "inner_text link")
    case (Inl e)
    with assms href show ?thesis by (simp add: extract_slot_def Let_def)
  next
    case (Inr t)
    with assms href show ?thesis
      by (cases "significant (strip t)") (auto simp: extract_slot_def Let_def)
  qed
qed

lemma question_slot_links:
  "link1 question_slot = Inr (Some (anchor ''/question/Example'' ''What is an example?''))"
  "link2 question_slot = Inr None"
  by (simp_all add: question_slot_def absent_slot_def)

lemma or_zero_nonempty: "or_zero v \<noteq> []"
  by (simp add: or_zero_def)


lemma read_text_or_zero_Inr:
  "read_text_or_zero q = Inr v \<Longrightarrow>
     (q = Inr None \<and> v = ''0'')
     \<or> (\<exists>el t. q = Inr (Some el) \<and> inner_text el = Inr t \<and> v = strip t)"
  by (auto simp: read_text_or_zero_def split: sum.splits option.splits)

lemma follow_fields_nonempty:
  "fst (follow_fields s) \<noteq> [] \<and> snd (follow_fields s) \<noteq> []"
  by (simp add: follow_fields_def fill_defaults_def or_zero_nonempty split: sum.split)



lemma views_likes_no_button: "more_button s = Inr None \<Longrightarrow> views_likes s = ([], [])"
  by (simp add: views_likes_def)

lemma views_source:
  assumes "more_button s \<noteq> Inr None"
  shows "fst (views_likes s) = ''0''
   \<or> (\<exists>el t. views_element s = Inr (Some el) \<and> inner_text el = Inr t
         \<and> fst (views_likes s) = strip t)"
proof (cases "more_button s")
  case (Inl e)
  then show ?thesis by (simp add: views_likes_def fill_defaults_def or_zero_def)
next
  case (Inr mb)
  with assms obtain b where mb: "more_button s = Inr (Some b)" by (cases mb) auto
  show ?thesis
  proof (cases "click b")
    case (Inl e)
    with mb show ?thesis by (simp add: views_likes_def fill_defaults_def or_zero_def)
  next
    case ck: (Inr u)
    show ?thesis
    proof (cases "read_text_or_zero (views_element s)")
      case (Inl e)
      with mb ck show ?thesis by (simp add: views_likes_def fill_defaults_def or_zero_def)
    next
      case v: (Inr v)
      then have src: "v = ''0'' \<or> (\<exists>el t. views_element s = Inr (Some el) \<and> inner_text el = Inr t
          \<and> v = strip t)"
        by (auto dest: read_text_or_zero_Inr)
      from mb ck v have "fst (views_likes s) = v \<or> fst (views_likes s) = or_zero v"
        by (simp add: views_likes_def fill_defaults_def split: sum.split)
      with src show ?thesis by (auto simp: or_zero_def)
    qed
  qed
qed

lemma likes_source:
  assumes "more_button s \<noteq> Inr None"
  shows "snd (views_likes s) = ''0''
   \<or> (\<exists>el t. likes_element s = Inr (Some el) \<and> inner_text el = Inr t
         \<and> snd (views_likes s) = strip t)"
proof (cases "more_button s")
  case (Inl e)
  then show ?thesis by (simp add: views_likes_def fill_defaults_def or_zero_def)
next
  case (Inr mb)
  with assms obtain b where mb: "more_button s = Inr (Some b)" by (cases mb) auto
  show ?thesis
  proof (cases "click b")
    case (Inl e)
    with mb show ?thesis by (simp add: views_likes_def fill_defaults_def or_zero_def)
  next
    case ck: (Inr u)
    show ?thesis
    proof (cases "read_text_or_zero (views_element s)")
      case (Inl e)
      with mb ck show ?thesis by (simp add: views_likes_def fill_defaults_def or_zero_def)
    next
      case v: (Inr v)
      show ?thesis
      proof (cases "read_text_or_zero (likes_element s)")
        case (Inl e)
        with mb ck v show ?thesis by (simp add: views_likes_def fill_defaults_def or_zero_def)
      next
        case l: (Inr l)
        then have src: "l = ''0'' \<or> (\<exists>el t. likes_element s = Inr (Some el)
            \<and> inner_text el = Inr t \<and> l = strip t)"
          by (auto dest: read_text_or_zero_Inr)
        from mb ck v l have "snd (views_likes s) = l"
          by (simp add: views_likes_def)
        with src show ?thesis by auto
      qed
    qed
  qed
qed

lemma both_slot_links:
  "link1 both_slot = Inr (Some (anchor ''/question/Example'' ''What is an example?''))"
  "link2 both_slot = Inr (Some (anchor ''/answer/Example'' ''An answer to the example''))"
  "more_button both_slot = Inr (Some (anchor [] ''(more)''))"
  by (simp_all add: both_slot_def absent_slot_def)










section \<open>The length of the result\<close>

text \<open>
  Claim C1. For every positive target, the list that \<open>scrape_posts\<close> returns has at
  most that many records; and already \<open>extract_posts\<close> returns no more than its
  target, since the primary pass stops as soon as the target is reached and the fallback
  pass appends only below it.
\<close>

theorem scrape_posts_bounded:
  assumes "0 < target"
  shows "int (length (snd (scrape_posts w keyword target))) \<le> target
         \<and> (extract_posts p (Some target) = Inr out \<longrightarrow> int (length out) \<le> target)"
proof
  obtain calls posts where sk: "search_keyword w keyword target = (calls, posts)"
    by (cases "search_keyword w keyword target")
  show "int (length (snd (scrape_posts w keyword target))) \<le> target"
  proof (cases "posts = []")
    case True
    with sk assms show ?thesis by (simp add: scrape_posts_def)
  next
    case False
    with sk have "snd (scrape_posts w keyword target) = slice_to target posts"
      by (simp add: scrape_posts_def)
    with assms show ?thesis by (simp add: slice_to_length)
  qed
next
  from assms show "extract_posts p (Some target) = Inr out \<longrightarrow> int (length out) \<le> target"
    by (blast intro: extract_posts_bound)
qed

theorem scrape_posts_bounded_witness:
  "(0::int) < 1
   \<and> int (length (snd (scrape_posts (steady_session first_slot_page) ''amazon acos'' 1))) \<le> 1
   \<and> int (length [question_post]) \<le> 1"
  using scrape_posts_bounded [of 1 "steady_session first_slot_page" "''amazon acos''"
      first_slot_page "[question_post]"]
  by simp

text \<open>
  Claim C10. With a requested count of 0, \<open>scrape_posts\<close> returns the empty list for
  every keyword and every behaviour of the page, although \<open>extract_posts\<close> with target
  0 returns one record on a page whose first position holds a question.
\<close>

theorem scrape_posts_zero:
  "snd (scrape_posts w keyword 0) = []
   \<and> extract_posts first_slot_page (Some 0) = Inr [question_post]"
proof
  show "snd (scrape_posts w keyword 0) = []"
    by (cases "search_keyword w keyword 0") (simp add: scrape_posts_def slice_to_def)
next
  show "extract_posts first_slot_page (Some 0) = Inr [question_post]"
    by (rule extract_posts_first_slot_zero)
qed

section \<open>The scroll loop\<close>

text \<open>
  Claim C6. With target 10 and six scrolls that each measure 3 posts, the loop runs six
  iterations and leaves by the stagnation test: the first measurement grows from 0, the
  next five do not, and the streak reaches 5 at the sixth scroll, far below the budget of
  50 scrolls.
\<close>

theorem stagnation_stop:
  assumes "map (evaluate w) [1..<7] = replicate 6 (Inr ())"
    and "map (current_count w) [1..<7] = [3, 3, 3, 3, 3, 3]"
  shows "scroll_loop w 10 initial_state calls =
           (calls @ [Evaluate 1, ExtractPostsForCount 1, Evaluate 2, ExtractPostsForCount 2,
                     Evaluate 3, ExtractPostsForCount 3, Evaluate 4, ExtractPostsForCount 4,
                     Evaluate 5, ExtractPostsForCount 5, Evaluate 6, ExtractPostsForCount 6],
            Inr (Stagnated, \<lparr>scroll_count = 6, previous_count = 3, no_new_posts_count = 5\<rparr>))
         \<and> 6 < max_scrolls"
proof -
  have ev: "evaluate w k = Inr ()" if "1 \<le> k" "k < 7" for k
  proof -
    from that have "evaluate w k \<in> set (map (evaluate w) [1..<7])" by simp
    with assms(1) show ?thesis by simp
  qed
  have cc: "current_count w k = 3" if "1 \<le> k" "k < 7" for k
  proof -
    from that have "current_count w k \<in> set (map (current_count w) [1..<7])" by simp
    with assms(2) show ?thesis by simp
  qed
  have "scroll_loop w 10 \<lparr>scroll_count = 0, previous_count = 0, no_new_posts_count = 0\<rparr> calls =
        scroll_loop w 10 \<lparr>scroll_count = 1, previous_count = 3, no_new_posts_count = 0\<rparr>
          (calls @ [Evaluate 1, ExtractPostsForCount 1])"
    by (rule scroll_loop_continue) (simp_all add: ev cc max_scrolls_def)
  also have "\<dots> =
        scroll_loop w 10 \<lparr>scroll_count = 2, previous_count = 3, no_new_posts_count = 1\<rparr>
          ((calls @ [Evaluate 1, ExtractPostsForCount 1]) @ [Evaluate 2, ExtractPostsForCount 2])"
    by (rule scroll_loop_continue) (simp_all add: ev cc max_scrolls_def)
  also have "\<dots> =
        scroll_loop w 10 \<lparr>scroll_count = 3, previous_count = 3, no_new_posts_count = 2\<rparr>
          (((calls @ [Evaluate 1, ExtractPostsForCount 1]) @ [Evaluate 2, ExtractPostsForCount 2])
            @ [Evaluate 3, ExtractPostsForCount 3])"
    by (rule scroll_loop_continue) (simp_all add: ev cc max_scrolls_def)
  also have "\<dots> =
        scroll_loop w 10 \<lparr>scroll_count = 4, previous_count = 3, no_new_posts_count = 3\<rparr>
          ((((calls @ [Evaluate 1, ExtractPostsForCount 1]) @ [Evaluate 2, ExtractPostsForCount 2])
            @ [Evaluate 3, ExtractPostsForCount 3]) @ [Evaluate 4, ExtractPostsForCount 4])"
    by (rule scroll_loop_continue) (simp_all add: ev cc max_scrolls_def)
  also have "\<dots> =
        scroll_loop w 10 \<lparr>scroll_count = 5, previous_count = 3, no_new_posts_count = 4\<rparr>
          (((((calls @ [Evaluate 1, ExtractPostsForCount 1]) @ [Evaluate 2, ExtractPostsForCount 2])
            @ [Evaluate 3, ExtractPostsForCount 3]) @ [Evaluate 4, ExtractPostsForCount 4])
            @ [Evaluate 5, ExtractPostsForCount 5])"
    by (rule scroll_loop_continue) (simp_all add: ev cc max_scrolls_def)
  also have "\<dots> =
        ((((((calls @ [Evaluate 1, ExtractPostsForCount 1]) @ [Evaluate 2, ExtractPostsForCount 2])
            @ [Evaluate 3, ExtractPostsForCount 3]) @ [Evaluate 4, ExtractPostsForCount 4])
            @ [Evaluate 5, ExtractPostsForCount 5]) @ [Evaluate 6, ExtractPostsForCount 6],
         Inr (Stagnated, \<lparr>scroll_count = 6, previous_count = 3, no_new_posts_count = 5\<rparr>))"
    by (rule scroll_loop_stagnated) (simp_all add: ev cc max_scrolls_def)
  finally show ?thesis by (simp add: max_scrolls_def initial_state_def)
qed

theorem stagnation_stop_witness:
  "map (evaluate (steady_session (questions_page 3))) [1..<7] = replicate 6 (Inr ())
   \<and> map (current_count (steady_session (questions_page 3))) [1..<7] = [3, 3, 3, 3, 3, 3]
   \<and> scroll_loop (steady_session (questions_page 3)) 10 initial_state [] =
       ([Evaluate 1, ExtractPostsForCount 1, Evaluate 2, ExtractPostsForCount 2,
         Evaluate 3, ExtractPostsForCount 3, Evaluate 4, ExtractPostsForCount 4,
         Evaluate 5, ExtractPostsForCount 5, Evaluate 6, ExtractPostsForCount 6],
        Inr (Stagnated, \<lparr>scroll_count = 6, previous_count = 3, no_new_posts_count = 5\<rparr>))"
proof -
  have h1: "map (evaluate (steady_session (questions_page 3))) [1..<7] = replicate 6 (Inr ())"
    by (simp add: steady_session_def map_replicate_const)
  have h2: "map (current_count (steady_session (questions_page 3))) [1..<7] = [3, 3, 3, 3, 3, 3]"
    unfolding upt_1_7 by (simp add: current_count_steady)
  show ?thesis
    using h1 h2 stagnation_stop [OF h1 h2, of "[]"] by simp
qed

text \<open>
  Claim C7. Whenever the loop ends normally, every measurement before the last one was
  below the target, and the loop ended by the target test exactly when the last
  measurement reached the target: the target stop fires on the first measurement that
  is at least the target and on no earlier one. With measurements 2, 5, 9, 12 and target
  10 the loop goes on after the third scroll and stops at the fourth.
\<close>

theorem target_reached_stop:
  "(scroll_loop w target_posts initial_state calls = (calls', Inr (ex, st)) \<longrightarrow>
      1 \<le> scroll_count st
      \<and> (ex = TargetReached) = (target_posts \<le> int (current_count w (scroll_count st)))
      \<and> (\<forall>j. 1 \<le> j \<and> j < scroll_count st \<longrightarrow> int (current_count w j) < target_posts))
   \<and> (map (evaluate w) [1..<5] = replicate 4 (Inr ())
        \<and> map (current_count w) [1..<5] = [2, 5, 9, 12] \<longrightarrow>
      scroll_loop w 10 initial_state calls =
        (calls @ [Evaluate 1, ExtractPostsForCount 1, Evaluate 2, ExtractPostsForCount 2,
                  Evaluate 3, ExtractPostsForCount 3, Evaluate 4, ExtractPostsForCount 4],
         Inr (TargetReached,
              \<lparr>scroll_count = 4, previous_count = 9, no_new_posts_count = 0\<rparr>)))"
proof (intro conjI impI)
  assume run: "scroll_loop w target_posts initial_state calls = (calls', Inr (ex, st))"
  have start: "\<forall>j. 1 \<le> j \<and> j \<le> scroll_count initial_state \<longrightarrow>
      int (current_count w j) < target_posts"
    by (simp add: initial_state_def)
  note ex = scroll_loop_exit [OF run start]
  show "1 \<le> scroll_count st"
    using ex by (cases ex) (simp_all add: max_scrolls_def)
  show "(ex = TargetReached) = (target_posts \<le> int (current_count w (scroll_count st)))"
  proof (cases ex)
    case TargetReached
    with ex show ?thesis by simp
  next
    case Stagnated
    with ex show ?thesis by simp
  next
    case BudgetSpent
    with ex have "1 \<le> scroll_count st"
      and "\<forall>j. 1 \<le> j \<and> j \<le> scroll_count st \<longrightarrow> int (current_count w j) < target_posts"
      by (simp_all add: max_scrolls_def)
    then have "int (current_count w (scroll_count st)) < target_posts" by blast
    with BudgetSpent show ?thesis by simp
  qed
  show "\<forall>j. 1 \<le> j \<and> j < scroll_count st \<longrightarrow> int (current_count w j) < target_posts"
    using ex by blast
next
  assume h: "map (evaluate w) [1..<5] = replicate 4 (Inr ())
        \<and> map (current_count w) [1..<5] = [2, 5, 9, 12]"
  have ev: "evaluate w k = Inr ()" if "1 \<le> k" "k < 5" for k
  proof -
    from that have "evaluate w k \<in> set (map (evaluate w) [1..<5])" by simp
    with h show ?thesis by simp
  qed
  from h have cc: "current_count w (Suc 0) = 2" "current_count w 2 = 5" "current_count w 3 = 9"
    "current_count w 4 = 12"
    unfolding upt_1_5 by simp_all
  have "scroll_loop w 10 \<lparr>scroll_count = 0, previous_count = 0, no_new_posts_count = 0\<rparr> calls =
        scroll_loop w 10 \<lparr>scroll_count = 1, previous_count = 2, no_new_posts_count = 0\<rparr>
          (calls @ [Evaluate 1, ExtractPostsForCount 1])"
    by (rule scroll_loop_continue) (simp_all add: ev cc max_scrolls_def)
  also have "\<dots> =
        scroll_loop w 10 \<lparr>scroll_count = 2, previous_count = 5, no_new_posts_count = 0\<rparr>
          ((calls @ [Evaluate 1, ExtractPostsForCount 1]) @ [Evaluate 2, ExtractPostsForCount 2])"
    by (rule scroll_loop_continue) (simp_all add: ev cc max_scrolls_def)
  also have "\<dots> =
        scroll_loop w 10 \<lparr>scroll_count = 3, previous_count = 9, no_new_posts_count = 0\<rparr>
          (((calls @ [Evaluate 1, ExtractPostsForCount 1]) @ [Evaluate 2, ExtractPostsForCount 2])
            @ [Evaluate 3, ExtractPostsForCount 3])"
    by (rule scroll_loop_continue) (simp_all add: ev cc max_scrolls_def)
  also have "\<dots> =
        ((((calls @ [Evaluate 1, ExtractPostsForCount 1]) @ [Evaluate 2, ExtractPostsForCount 2])
            @ [Evaluate 3, ExtractPostsForCount 3]) @ [Evaluate 4, ExtractPostsForCount 4],
         Inr (TargetReached, \<lparr>scroll_count = 4, previous_count = 9, no_new_posts_count = 0\<rparr>))"
    by (rule scroll_loop_reached) (simp_all add: ev cc max_scrolls_def)
  finally show "scroll_loop w 10 initial_state calls =
        (calls @ [Evaluate 1, ExtractPostsForCount 1, Evaluate 2, ExtractPostsForCount 2,
                  Evaluate 3, ExtractPostsForCount 3, Evaluate 4, ExtractPostsForCount 4],
         Inr (TargetReached,
              \<lparr>scroll_count = 4, previous_count = 9, no_new_posts_count = 0\<rparr>))"
    by (simp add: initial_state_def)
qed

theorem target_reached_stop_witness:
  "map (evaluate growing_session) [1..<5] = replicate 4 (Inr ())
   \<and> map (current_count growing_session) [1..<5] = [2, 5, 9, 12]
   \<and> scroll_loop growing_session 10 initial_state [] =
       ([Evaluate 1, ExtractPostsForCount 1, Evaluate 2, ExtractPostsForCount 2,
         Evaluate 3, ExtractPostsForCount 3, Evaluate 4, ExtractPostsForCount 4],
        Inr (TargetReached, \<lparr>scroll_count = 4, previous_count = 9, no_new_posts_count = 0\<rparr>))
   \<and> int (current_count growing_session 3) < 10
   \<and> 10 \<le> int (current_count growing_session 4)"
proof -
  have h1: "map (evaluate growing_session) [1..<5] = replicate 4 (Inr ())"
    by (simp add: growing_session_def map_replicate_const)
  have h2: "map (current_count growing_session) [1..<5] = [2, 5, 9, 12]"
    unfolding upt_1_5 by (simp add: current_count_growing)
  have run: "scroll_loop growing_session 10 initial_state [] =
       ([Evaluate 1, ExtractPostsForCount 1, Evaluate 2, ExtractPostsForCount 2,
         Evaluate 3, ExtractPostsForCount 3, Evaluate 4, ExtractPostsForCount 4],
        Inr (TargetReached, \<lparr>scroll_count = 4, previous_count = 9, no_new_posts_count = 0\<rparr>))"
    using h1 h2 target_reached_stop [of growing_session 10 "[]"] by simp
  have "int (current_count growing_session 3) < 10
        \<and> 10 \<le> int (current_count growing_session 4)"
    using run target_reached_stop [of growing_session 10 "[]"
        "[Evaluate 1, ExtractPostsForCount 1, Evaluate 2, ExtractPostsForCount 2,
          Evaluate 3, ExtractPostsForCount 3, Evaluate 4, ExtractPostsForCount 4]"
        TargetReached "\<lparr>scroll_count = 4, previous_count = 9, no_new_posts_count = 0\<rparr>"]
    by simp
  with h1 h2 run show ?thesis by simp
qed

text \<open>
  Claim C8. When the page content read after navigation contains "no results" or "no
  answers" (in any letter case), \<open>search_keyword\<close> returns the empty list having only
  navigated and read the content: no scroll and no counting pass is made.
\<close>

theorem no_results_returns_empty:
  assumes "goto w (''https://www.quora.com/search?q='' @ quote keyword) = Inr ()"
    and "content w = Inr page_content"
    and "no_results page_content"
  shows "search_keyword w keyword target_posts =
           ([Goto (''https://www.quora.com/search?q='' @ quote keyword), Content], [])"
  using assms by (simp add: search_keyword_def Let_def)

theorem no_results_returns_empty_witness:
  "goto no_results_session (''https://www.quora.com/search?q='' @ quote ''amazon acos'') = Inr ()
   \<and> content no_results_session = Inr ''<div>No results found</div>''
   \<and> no_results ''<div>No results found</div>''
   \<and> search_keyword no_results_session ''amazon acos'' 10 =
       ([Goto ''https://www.quora.com/search?q=amazon%20acos'', Content], [])"
proof -
  have h1: "goto no_results_session (''https://www.quora.com/search?q='' @ quote ''amazon acos'')
            = Inr ()"
    by (simp add: no_results_session_def)
  have h2: "content no_results_session = Inr ''<div>No results found</div>''"
    by (simp add: no_results_session_def)
  show ?thesis
    using h1 h2 no_results_found
      no_results_returns_empty [OF h1 h2 no_results_found, of 10]
    by (simp add: quote_amazon_acos)
qed

section \<open>The positions probed\<close>

text \<open>
  Claim C2. Both passes iterate \<open>range(1, 100)\<close>, the positions 1 to 99: position 100 is
  not in the range. On a page whose only question sits at position 100, where both the
  counting step and the extraction step would emit a record, the counting pass and the
  full extraction return the empty list.
\<close>

theorem slot_100_never_probed:
  "slot_range = [1..<100]
   \<and> 100 \<notin> set slot_range
   \<and> extract_slot (query_slot page_slot_100 100) = Inr (Some question_post)
   \<and> count_slot (query_slot page_slot_100 100) = Inr (Some count_post)
   \<and> extract_posts_for_count page_slot_100 = Inr []
   \<and> extract_posts page_slot_100 (Some 10) = Inr []"
  using slot_100_holds_question extract_posts_for_count_slot_100 extract_posts_slot_100
  by (simp add: slot_range_def)

section \<open>The url of a record\<close>

text \<open>
  Claim C5, what the code computes. The source introduces the step with the comment
  ``ensure it is a complete URL'' and names the result \<open>full_url\<close>. The url of an emitted
  record is computed from the href of the link: an href starting with \<open>/\<close> is prefixed
  with the site origin, every other non-empty href is passed through unchanged, whether
  or not it is absolute, and the url is empty only when the href is missing or empty.
  This holds for the record of a position of the primary pass and for the record the
  fallback pass appends for a link. So the step completes an href with a leading \<open>/\<close>
  and misses every other relative href.
\<close>

theorem url_resolution:
  "(link1 s = Inr l1 \<and> link2 s = Inr l2 \<and> choose_link l1 l2 = Some link
      \<and> get_attribute_href link = Inr href \<and> extract_slot s = Inr (Some r) \<longrightarrow>
    map_of r ''url'' =
      Some (case href of None \<Rightarrow> []
            | Some h \<Rightarrow> if startswith h ''/'' then ''https://www.quora.com'' @ h else h))
   \<and> (get_attribute_href link' = Inr href' \<and> inner_text link' = Inr t
        \<and> significant (strip t) \<and> int (length posts) < target_posts \<longrightarrow>
      fallback_links target_posts (link' # links) posts =
        fallback_links target_posts links
          (posts @ [[(''title'', strip t),
                     (''url'', case href' of None \<Rightarrow> []
                               | Some h \<Rightarrow> if startswith h ''/''
                                          then ''https://www.quora.com'' @ h else h),
                     (''content'', [])]]))"
proof (intro conjI impI)
  assume a: "link1 s = Inr l1 \<and> link2 s = Inr l2 \<and> choose_link l1 l2 = Some link
      \<and> get_attribute_href link = Inr href \<and> extract_slot s = Inr (Some r)"
  then obtain href' t where "get_attribute_href link = Inr href'"
    and r: "r = [(''title'', strip t), (''url'', full_url href'),
                  (''follow_text'', fst (if l1 \<noteq> None then follow_fields s else ([], []))),
                  (''follow_count'', snd (if l1 \<noteq> None then follow_fields s else ([], []))),
                  (''views'', fst (if l2 \<noteq> None then views_likes s else ([], []))),
                  (''likes'', snd (if l2 \<noteq> None then views_likes s else ([], []))),
                  (''content'', [])]"
    using extract_slot_emits [of s l1 l2 link r] by blast
  with a have "href' = href" by simp
  with r have "map_of r ''url'' = Some (full_url href)" by simp
  then show "map_of r ''url'' =
      Some (case href of None \<Rightarrow> []
            | Some h \<Rightarrow> if startswith h ''/'' then ''https://www.quora.com'' @ h else h)"
    by (simp only: full_url_cases)
next
  assume "get_attribute_href link' = Inr href' \<and> inner_text link' = Inr t
        \<and> significant (strip t) \<and> int (length posts) < target_posts"
  then show "fallback_links target_posts (link' # links) posts =
        fallback_links target_posts links
          (posts @ [[(''title'', strip t),
                     (''url'', case href' of None \<Rightarrow> []
                               | Some h \<Rightarrow> if startswith h ''/''
                                          then ''https://www.quora.com'' @ h else h),
                     (''content'', [])]])"
    by (simp add: full_url_cases)
qed

theorem url_resolution_witness:
  "extract_slot question_slot = Inr (Some question_post)
   \<and> map_of question_post ''url'' = Some ''https://www.quora.com/question/Example''
   \<and> fallback_links 10 [anchor ''https://example.org/a'' ''An answer to the example''] [] =
       [[(''title'', ''An answer to the example''), (''url'', ''https://example.org/a''),
         (''content'', [])]]"
  using url_resolution [of question_slot
      "Some (anchor ''/question/Example'' ''What is an example?'')" None
      "anchor ''/question/Example'' ''What is an example?''" "Some ''/question/Example''"
      question_post
      "anchor ''https://example.org/a'' ''An answer to the example''"
      "Some ''https://example.org/a''" "''An answer to the example''" "[]" 10 "[]"]
  by (simp add: extract_slot_question question_slot_links anchor_def choose_link_def
      strip_answer significant_def)

text \<open>
  The failing input of claim C5: the href \<open>question/Example\<close> neither starts with \<open>/\<close>
  nor is absolute (it has no scheme). Both passes emit a record that carries it
  unchanged: the url is neither a complete URL, as the source's comment has it, nor
  empty, as the claim has it.
\<close>

theorem relative_link_counterexample:
  "\<not> startswith ''question/Example'' ''/''
   \<and> \<not> contains ''question/Example'' '':''
   \<and> full_url (Some ''question/Example'') = ''question/Example''
   \<and> extract_slot relative_link_slot =
       Inr (Some [(''title'', ''An answer to the example''), (''url'', ''question/Example''),
                  (''follow_text'', []), (''follow_count'', []), (''views'', []), (''likes'', []),
                  (''content'', [])])
   \<and> fallback_links 10 [anchor ''question/Example'' ''An answer to the example''] [] =
       [[(''title'', ''An answer to the example''), (''url'', ''question/Example''),
         (''content'', [])]]"
  by (simp add: extract_slot_relative full_url_def anchor_def strip_answer significant_def)

section \<open>Records of positions matching both patterns\<close>

text \<open>
  Claim C3, as the code has it. At a position where both \<open>link1\<close> and \<open>link2\<close> are found
  and a record is emitted, the title and url are read from \<open>link1\<close> and the follow text
  and follow count are filled in, neither of them empty; the views and likes of the record
  are those that the block guarded by \<open>if link2\<close> read at this position: both empty when
  no "more" control is found, and otherwise each \<open>"0"\<close> or the stripped text of its element.
\<close>

theorem pattern_precedence:
  assumes "link1 s = Inr (Some a)" and "link2 s = Inr (Some b)"
    and "extract_slot s = Inr (Some r)"
  shows "(\<exists>href t. get_attribute_href a = Inr href \<and> inner_text a = Inr t
           \<and> r = [(''title'', strip t), (''url'', full_url href),
                  (''follow_text'', fst (follow_fields s)),
                  (''follow_count'', snd (follow_fields s)),
                  (''views'', fst (views_likes s)), (''likes'', snd (views_likes s)),
                  (''content'', [])])
         \<and> fst (follow_fields s) \<noteq> [] \<and> snd (follow_fields s) \<noteq> []
         \<and> (more_button s = Inr None \<longrightarrow> views_likes s = ([], []))
         \<and> (more_button s \<noteq> Inr None \<longrightarrow>
              (fst (views_likes s) = ''0''
               \<or> (\<exists>el t. views_element s = Inr (Some el) \<and> inner_text el = Inr t
                     \<and> fst (views_likes s) = strip t))
              \<and> (snd (views_likes s) = ''0''
                   \<or> (\<exists>el t. likes_element s = Inr (Some el) \<and> inner_text el = Inr t
                         \<and> snd (views_likes s) = strip t)))"
proof -
  have "choose_link (Some a) (Some b) = Some a" by (simp add: choose_link_def)
  from extract_slot_emits [OF assms(1) assms(2) this assms(3)]
  have "\<exists>href t. get_attribute_href a = Inr href \<and> inner_text a = Inr t
           \<and> r = [(''title'', strip t), (''url'', full_url href),
                  (''follow_text'', fst (follow_fields s)),
                  (''follow_count'', snd (follow_fields s)),
                  (''views'', fst (views_likes s)), (''likes'', snd (views_likes s)),
                  (''content'', [])]"
    by auto
  then show ?thesis
    using follow_fields_nonempty [of s] views_likes_no_button [of s]
      views_source [of s] likes_source [of s]
    by blast
qed

theorem pattern_precedence_witness:
  "link1 both_slot = Inr (Some (anchor ''/question/Example'' ''What is an example?''))
   \<and> link2 both_slot = Inr (Some (anchor ''/answer/Example'' ''An answer to the example''))
   \<and> more_button both_slot = Inr (Some (anchor [] ''(more)''))
   \<and> extract_slot both_slot = Inr (Some both_post)
   \<and> (\<exists>href t. get_attribute_href (anchor ''/question/Example'' ''What is an example?'') = Inr href
         \<and> inner_text (anchor ''/question/Example'' ''What is an example?'') = Inr t
         \<and> both_post = [(''title'', strip t), (''url'', full_url href),
                  (''follow_text'', fst (follow_fields both_slot)),
                  (''follow_count'', snd (follow_fields both_slot)),
                  (''views'', fst (views_likes both_slot)),
                  (''likes'', snd (views_likes both_slot)),
                  (''content'', [])])
   \<and> fst (follow_fields both_slot) \<noteq> [] \<and> snd (follow_fields both_slot) \<noteq> []"
  using pattern_precedence [OF both_slot_links(1) both_slot_links(2) extract_slot_both]
    both_slot_links extract_slot_both
  by simp

text \<open>
  The claim as stated fails: on a page whose first position matches both patterns and has
  the "more" control, the record takes its title from \<open>link1\<close> and still carries the
  views and likes read for \<open>link2\<close>.
\<close>

theorem both_patterns_counterexample:
  "link1 (query_slot both_page 1) =
     Inr (Some (anchor ''/question/Example'' ''What is an example?''))
   \<and> link2 (query_slot both_page 1) =
     Inr (Some (anchor ''/answer/Example'' ''An answer to the example''))
   \<and> extract_posts both_page (Some 1) = Inr [both_post]
   \<and> map_of both_post ''views'' = Some ''1.2K views''
   \<and> map_of both_post ''likes'' = Some ''35''"
  using extract_posts_both_page both_slot_links
  by (simp add: both_page_def page_of_def both_post_def)

section \<open>Defaults of the supplemental fields\<close>




section \<open>Failures inside the extraction\<close>




end
